theory Spec2Isabelle
  imports Main "HOL-Library.List_Lexorder" "HOL-Library.Char_ord"
begin

section \<open>The graph store\<close>

text \<open>
  The store is a property graph. A node carries the element identifier the store assigns
  and, when it has one, its \<open>id\<close> property. A relationship is a stored edge with its own
  element identifier, its start node, its type and its end node. Nodes and relationships
  are compared as the store compares them, by identity: here the whole record.
\<close>

record node =
  element_id :: string
  node_id :: "string option"

record relationship =
  rel_element_id :: string
  startNode :: node
  rel_type :: string
  endNode :: node

record graph =
  graph_nodes :: "node list"
  graph_rels :: "relationship list"

subsection \<open>Built-in functions of the query language\<close>

text \<open>
  \<open>toLower\<close> lower-cases the letters A to Z and leaves every other character as it is.
  No proof below uses more of \<open>toLower\<close> than that it is a function on strings.
\<close>

definition lower_char :: "char \<Rightarrow> char" where
  "lower_char c =
     (if CHR ''A'' \<le> c \<and> c \<le> CHR ''Z'' then char_of (of_char c + (32::nat)) else c)"

definition toLower :: "string \<Rightarrow> string" where
  "toLower s = map lower_char s"

text \<open>
  \<open>DISTINCT\<close> and \<open>UNION\<close> keep one copy of each row; the model keeps the first.
\<close>

definition cy_distinct :: "'a list \<Rightarrow> 'a list" where
  "cy_distinct xs = rev (remdups (rev xs))"

text \<open>
  \<open>MATCH (n) WHERE toLower(n.id) = toLower($entity)\<close>: a node without an \<open>id\<close>
  property gives \<open>null\<close> on the left, the comparison is \<open>null\<close>, and the node is dropped.
\<close>

definition anchors :: "graph \<Rightarrow> string \<Rightarrow> node list" where
  "anchors g entity =
     filter (\<lambda>n. case node_id n of None \<Rightarrow> False | Some i \<Rightarrow> toLower i = toLower entity)
       (graph_nodes g)"

text \<open>
  \<open>(n)-[*1..]->(m)\<close>: every path of one or more relationships that starts at \<open>n\<close>,
  follows each relationship from its start node to its end node, and uses no
  relationship twice. The paths are listed by their relationships, first hop first.
\<close>

function trails_from :: "relationship list \<Rightarrow> node \<Rightarrow> relationship list list" where
  "trails_from rs n =
     concat (map (\<lambda>r. if startNode r = n
                       then [r] # map ((#) r) (trails_from (removeAll r rs) (endNode r))
                       else []) rs)"
  by pat_completeness auto
termination
  by (relation "measure (\<lambda>(rs, n). length rs)") (auto simp: length_removeAll_less)

text \<open>
  \<open>(m)-[*1..]->(n)\<close>: the same paths, ending at \<open>n\<close>; they are found from \<open>n\<close>
  backwards and still listed first hop first.
\<close>

function trails_into :: "relationship list \<Rightarrow> node \<Rightarrow> relationship list list" where
  "trails_into rs n =
     concat (map (\<lambda>r. if endNode r = n
                       then [r] # map (\<lambda>p. p @ [r]) (trails_into (removeAll r rs) (startNode r))
                       else []) rs)"
  by pat_completeness auto
termination
  by (relation "measure (\<lambda>(rs, n). length rs)") (auto simp: length_removeAll_less)

text \<open>
  \<open>OPTIONAL MATCH p = ...\<close> gives one row per path, or a single row with \<open>p = null\<close>
  when there is none. \<open>UNWIND relationships(p) AS r\<close> gives one row per relationship of
  the path and no row at all for \<open>null\<close>.
\<close>

definition optional_match :: "'a list \<Rightarrow> 'a option list" where
  "optional_match ps = (if ps = [] then [None] else map Some ps)"

definition unwind_relationships :: "relationship list option list \<Rightarrow> relationship list" where
  "unwind_relationships ps = concat (map (\<lambda>p. case p of None \<Rightarrow> [] | Some p' \<Rightarrow> p') ps)"

text \<open>
  The two halves of both queries up to \<open>WITH DISTINCT rel\<close>.
\<close>

definition outgoing_rels :: "graph \<Rightarrow> string \<Rightarrow> relationship list" where
  "outgoing_rels g entity =
     cy_distinct (unwind_relationships
       (concat (map (\<lambda>n. optional_match (trails_from (graph_rels g) n)) (anchors g entity))))"

definition incoming_rels :: "graph \<Rightarrow> string \<Rightarrow> relationship list" where
  "incoming_rels g entity =
     cy_distinct (unwind_relationships
       (concat (map (\<lambda>n. optional_match (trails_into (graph_rels g) n)) (anchors g entity))))"

subsection \<open>The query of \<open>structured_retriever\<close>\<close>

text \<open>
  \<open>startNode(rel).id + ' -[' + type(rel) + ']-> ' + endNode(rel).id AS output\<close>:
  concatenation with \<open>null\<close> is \<open>null\<close>.
\<close>

definition rel_output :: "relationship \<Rightarrow> string option" where
  "rel_output r =
     (case node_id (startNode r) of
        None \<Rightarrow> None
      | Some s \<Rightarrow>
          (case node_id (endNode r) of
             None \<Rightarrow> None
           | Some t \<Rightarrow> Some (s @ '' -['' @ rel_type r @ '']-> '' @ t)))"

text \<open>
  \<open>ORDER BY output\<close>, ascending: strings in lexicographic order, \<open>null\<close> last.
\<close>

definition order_by :: "string option list \<Rightarrow> string option list" where
  "order_by rows =
     map Some (sort (concat (map (\<lambda>x. case x of None \<Rightarrow> [] | Some s \<Rightarrow> [s]) rows)))
       @ filter (\<lambda>x. x = None) rows"

text \<open>
  The query is \<open>... RETURN ... AS output UNION ... RETURN ... AS output ORDER BY output\<close>.
  In this query language \<open>ORDER BY\<close> is part of the \<open>RETURN\<close> it follows, so it orders the
  rows of the second half, the incoming relationships, before \<open>UNION\<close> joins the two
  halves; the rows of the first half keep the order in which the store produced them.
  \<open>UNION\<close> lists the rows of the first half, then those of the second, each row once.
\<close>

definition text_query :: "graph \<Rightarrow> string \<Rightarrow> string option list" where
  "text_query g entity =
     cy_distinct (map rel_output (outgoing_rels g entity)
                  @ order_by (map rel_output (incoming_rels g entity)))"

text \<open>
  The second query of \<open>structured_retriever\<close>:
  \<open>OPTIONAL MATCH (n)-[*2]->(grand) RETURN DISTINCT grand.id AS grandparent_id LIMIT 1\<close>.
\<close>

definition two_hops :: "relationship list \<Rightarrow> node \<Rightarrow> node list" where
  "two_hops rs n =
     concat (map (\<lambda>r1. if startNode r1 = n
                        then concat (map (\<lambda>r2. if r2 \<noteq> r1 \<and> startNode r2 = endNode r1
                                                then [endNode r2] else []) rs)
                        else []) rs)"

definition grandparent_query :: "graph \<Rightarrow> string \<Rightarrow> string option list" where
  "grandparent_query g entity =
     take 1 (cy_distinct
       (concat (map (\<lambda>n. map (\<lambda>grand. case grand of None \<Rightarrow> None | Some m \<Rightarrow> node_id m)
                           (optional_match (two_hops (graph_rels g) n)))
                    (anchors g entity))))"

section \<open>The retriever\<close>

datatype exn = Failure string | TypeError nat | KeyError string

datatype call =
    ExtractCall string
  | TextQuery string
  | GrandparentQuery string
  | IndexQuery string
  | ChatCall string string

definition nl :: string where
  "nl = [CHR 0x0A]"

fun join_nl :: "string list \<Rightarrow> string" where
  "join_nl [] = []"
| "join_nl [x] = x"
| "join_nl (x # y # ys) = x @ nl @ join_nl (y # ys)"

text \<open>
  \<open>"\n".join(row["output"] for row in response)\<close>: the rows are collected first; the
  first row whose output is \<open>None\<close> raises \<open>TypeError\<close> with its position.
\<close>

fun outputs_from :: "nat \<Rightarrow> string option list \<Rightarrow> exn + string list" where
  "outputs_from i [] = Inr []"
| "outputs_from i (None # rows) = Inl (TypeError i)"
| "outputs_from i (Some s # rows) =
     (case outputs_from (Suc i) rows of Inl e \<Rightarrow> Inl e | Inr ss \<Rightarrow> Inr (s # ss))"

definition relationship_text :: "graph \<Rightarrow> string \<Rightarrow> exn + string" where
  "relationship_text g entity =
     (let response = text_query g entity in
      if response \<noteq> []
      then (case outputs_from 0 response of
              Inl e \<Rightarrow> Inl e
            | Inr ls \<Rightarrow> Inr (join_nl ls @ nl))
      else Inr (''No relationships found for entity: '' @ entity @ nl))"

definition grandparent_text :: "graph \<Rightarrow> string \<Rightarrow> string" where
  "grandparent_text g entity =
     (case grandparent_query g entity of
        Some gid # _ \<Rightarrow>
          (if gid \<noteq> [] then ''Grandparent id of '' @ entity @ '': '' @ gid @ nl
           else ''No grandparent found for '' @ entity @ nl)
      | _ \<Rightarrow> ''No grandparent found for '' @ entity @ nl)"

text \<open>
  The loop \<open>for entity in entities.names\<close>, with the text built so far and the calls
  made to the store.
\<close>

fun retrieve_loop :: "graph \<Rightarrow> string list \<Rightarrow> string \<Rightarrow> call list \<times> (exn + string)" where
  "retrieve_loop g [] result = ([], Inr result)"
| "retrieve_loop g (entity # rest) result =
     (case relationship_text g entity of
        Inl e \<Rightarrow> ([TextQuery entity], Inl e)
      | Inr block \<Rightarrow>
          (case retrieve_loop g rest (result @ block @ grandparent_text g entity) of
             (calls, r) \<Rightarrow> (TextQuery entity # GrandparentQuery entity # calls, r)))"

definition structured_retriever ::
  "(string \<Rightarrow> exn + string list) \<Rightarrow> graph \<Rightarrow> string \<Rightarrow> call list \<times> (exn + string)" where
  "structured_retriever entity_chain g question =
     (case entity_chain question of
        Inl e \<Rightarrow> ([ExtractCall question], Inl e)
      | Inr names \<Rightarrow>
          (case retrieve_loop g names [] of
             (calls, r) \<Rightarrow> (ExtractCall question # calls, r)))"

section \<open>The index form\<close>

subsection \<open>The query of \<open>get_graph_data\<close>\<close>

text \<open>
  \<open>RETURN startNode(rel) AS source, type(rel) AS rel_type, endNode(rel) AS target\<close>
  in both halves, joined by \<open>UNION\<close>.
\<close>

definition index_row :: "relationship \<Rightarrow> node \<times> string \<times> node" where
  "index_row r = (startNode r, rel_type r, endNode r)"

definition index_query :: "graph \<Rightarrow> string \<Rightarrow> (node \<times> string \<times> node) list" where
  "index_query g entity =
     cy_distinct (map index_row (outgoing_rels g entity) @ map index_row (incoming_rels g entity))"

text \<open>
  \<open>get_graph_data\<close> builds the text of its query with the entity written in twice, each
  time between single quotes.
\<close>

definition query :: "string \<Rightarrow> string" where
  "query entity =
     nl @ ''    MATCH (n) WHERE toLower(n.id)=toLower('' @ [CHR 0x27] @ entity @ [CHR 0x27] @ '')''
     @ nl @ ''    OPTIONAL MATCH pOut=(n)-[*1..]->(m)''
     @ nl @ ''    UNWIND relationships(pOut) AS relOut''
     @ nl @ ''    WITH DISTINCT relOut AS rel''
     @ nl @ ''    RETURN startNode(rel) AS source, type(rel) AS rel_type, endNode(rel) AS target''
     @ nl @ ''    UNION''
     @ nl @ ''    MATCH (n) WHERE toLower(n.id)=toLower('' @ [CHR 0x27] @ entity @ [CHR 0x27] @ '')''
     @ nl @ ''    OPTIONAL MATCH pIn=(m)-[*1..]->(n)''
     @ nl @ ''    UNWIND relationships(pIn) AS relIn''
     @ nl @ ''    WITH DISTINCT relIn AS rel''
     @ nl @ ''    RETURN startNode(rel) AS source, type(rel) AS rel_type, endNode(rel) AS target''
     @ nl @ ''    ''"

text \<open>
  The text between the quotes denotes the entity itself when the entity holds no single
  quote and no backslash; the query is then the one modelled by \<open>index_query\<close>. For any
  other entity the text is a different query, or no query at all.
\<close>

definition interpolates_verbatim :: "string \<Rightarrow> bool" where
  "interpolates_verbatim entity \<longleftrightarrow> CHR 0x27 \<notin> set entity \<and> CHR 0x5C \<notin> set entity"

text \<open>
  \<open>tx.run(query)\<close> and the reading of the three columns of its records. The store answers
  the query of an entity that is written in unchanged as the query language defines it.
  What it answers to any other text, an error or some rows, is not fixed by the graph: it
  is the parameter \<open>raw\<close>, the store's answer as a function of the text it is sent.
\<close>

type_synonym raw_store = "string \<Rightarrow> exn + (node \<times> string \<times> node) list"

definition run_query ::
  "graph \<Rightarrow> raw_store \<Rightarrow> string \<Rightarrow> exn + (node \<times> string \<times> node) list" where
  "run_query g raw entity =
     (if interpolates_verbatim entity then Inr (index_query g entity) else raw (query entity))"

subsection \<open>\<open>get_graph_data\<close>\<close>

type_synonym node_map = "(string \<times> nat) list"

record edge =
  source :: nat
  target :: nat
  caption :: string

text \<open>\<open>s.get("id", s.element_id)\<close>\<close>

definition node_key :: "node \<Rightarrow> string" where
  "node_key n = (case node_id n of Some i \<Rightarrow> i | None \<Rightarrow> element_id n)"

text \<open>\<open>node_map[k]\<close>, which raises \<open>KeyError\<close> on a missing key.\<close>

definition lookup :: "node_map \<Rightarrow> string \<Rightarrow> exn + nat" where
  "lookup node_map k = (case map_of node_map k of None \<Rightarrow> Inl (KeyError k) | Some i \<Rightarrow> Inr i)"

text \<open>
  The loop \<open>for record in result\<close>. The dictionary \<open>node_map\<close> keeps its keys in the
  order of insertion, so it is a list of pairs that grows at the end.
\<close>

fun index_rows ::
  "(node \<times> string \<times> node) list \<Rightarrow> node_map \<Rightarrow> edge list \<Rightarrow> nat \<Rightarrow> exn + (node_map \<times> edge list)" where
  "index_rows [] node_map relationships idx = Inr (node_map, relationships)"
| "index_rows ((s, r, t) # rest) node_map relationships idx =
     (let s_id = node_key s;
          t_id = node_key t;
          (node_map1, idx1) =
            (if map_of node_map s_id = None then (node_map @ [(s_id, idx)], idx + 1)
             else (node_map, idx));
          (node_map2, idx2) =
            (if map_of node_map1 t_id = None then (node_map1 @ [(t_id, idx1)], idx1 + 1)
             else (node_map1, idx1))
      in case lookup node_map2 s_id of
           Inl e \<Rightarrow> Inl e
         | Inr si \<Rightarrow>
             (case lookup node_map2 t_id of
                Inl e \<Rightarrow> Inl e
              | Inr ti \<Rightarrow>
                  index_rows rest node_map2
                    (relationships @ [\<lparr>source = si, target = ti, caption = r\<rparr>]) idx2))"

definition get_graph_data ::
  "graph \<Rightarrow> raw_store \<Rightarrow> string \<Rightarrow> exn + (node_map \<times> edge list)" where
  "get_graph_data g raw entity =
     (case run_query g raw entity of
        Inl e \<Rightarrow> Inl e
      | Inr result \<Rightarrow> index_rows result [] [] 0)"

section \<open>The application\<close>

text \<open>
  The handlers are modelled with \<open>DEBUG_MODE = False\<close>, the value the module sets: then
  \<open>log_debug\<close> does nothing and the debug output is the empty string. The store is
  reachable and the graph file can be written. Strings are byte strings, the UTF-8
  encodings of the Python strings; the three symbols that open the status messages are
  their UTF-8 encodings.
\<close>

definition warning_sign :: string where
  "warning_sign = [CHR 0xE2, CHR 0x9A, CHR 0xA0, CHR 0xEF, CHR 0xB8, CHR 0x8F]"

definition cross_mark :: string where
  "cross_mark = [CHR 0xE2, CHR 0x9D, CHR 0x8C]"

definition check_mark :: string where
  "check_mark = [CHR 0xE2, CHR 0x9C, CHR 0x85]"

fun show_nat :: "nat \<Rightarrow> string" where
  "show_nat n =
     (if n < 10 then [char_of (48 + n)]
      else show_nat (n div 10) @ [char_of (48 + n mod 10)])"

text \<open>
  \<open>str(e)\<close>. A \<open>KeyError\<close> prints its key between quotes.
\<close>

fun str_exn :: "exn \<Rightarrow> string" where
  "str_exn (Failure msg) = msg"
| "str_exn (TypeError i) =
     ''sequence item '' @ show_nat i @ '': expected str instance, NoneType found''"
| "str_exn (KeyError k) = [CHR 0x27] @ k @ [CHR 0x27]"

text \<open>\<open>entity.lower().replace(' ', '_')\<close>\<close>

definition lower :: "string \<Rightarrow> string" where
  "lower s = map lower_char s"

definition replace_space :: "string \<Rightarrow> string" where
  "replace_space s = map (\<lambda>c. if c = CHR '' '' then CHR ''_'' else c) s"

text \<open>
  \<open>str.isspace\<close> on one character, given as its code point: the white space of Unicode.
\<close>

definition isspace :: "nat \<Rightarrow> bool" where
  "isspace cp \<longleftrightarrow>
     (9 \<le> cp \<and> cp \<le> 13) \<or> (28 \<le> cp \<and> cp \<le> 32) \<or> cp = 0x85 \<or> cp = 0xA0
     \<or> cp = 0x1680 \<or> (0x2000 \<le> cp \<and> cp \<le> 0x200A) \<or> cp = 0x2028 \<or> cp = 0x2029
     \<or> cp = 0x202F \<or> cp = 0x205F \<or> cp = 0x3000"

text \<open>
  A Python string is a sequence of code points; a string here is its UTF-8 encoding. The
  code points are read off the bytes: \<open>decode_head\<close> gives the code point that starts
  with the byte \<open>b0\<close> and the number of bytes of \<open>rest\<close> that belong to it. A byte that
  starts no well-formed sequence stands alone, as the code point \<open>0xDC00\<close> plus the byte,
  which is not white space.
\<close>

definition continuation :: "char \<Rightarrow> bool" where
  "continuation b \<longleftrightarrow> 0x80 \<le> (of_char b :: nat) \<and> (of_char b :: nat) < 0xC0"

definition low_bits :: "string \<Rightarrow> nat \<Rightarrow> nat" where
  "low_bits rest i = (case drop i rest of [] \<Rightarrow> 0 | b # _ \<Rightarrow> (of_char b :: nat) - 0x80)"

definition decode_head :: "char \<Rightarrow> string \<Rightarrow> nat \<times> nat" where
  "decode_head b0 rest =
     (let k = (of_char b0 :: nat);
          cp2 = (k - 0xC0) * 0x40 + low_bits rest 0;
          cp3 = ((k - 0xE0) * 0x40 + low_bits rest 0) * 0x40 + low_bits rest 1;
          cp4 = (((k - 0xF0) * 0x40 + low_bits rest 0) * 0x40 + low_bits rest 1) * 0x40
                  + low_bits rest 2
      in if k < 0x80 then (k, 0)
         else if 0xC2 \<le> k \<and> k < 0xE0 \<and> 1 \<le> length rest \<and> list_all continuation (take 1 rest)
         then (cp2, 1)
         else if 0xE0 \<le> k \<and> k < 0xF0 \<and> 2 \<le> length rest \<and> list_all continuation (take 2 rest)
                 \<and> 0x800 \<le> cp3 \<and> (cp3 < 0xD800 \<or> 0xE000 \<le> cp3)
         then (cp3, 2)
         else if 0xF0 \<le> k \<and> k < 0xF5 \<and> 3 \<le> length rest \<and> list_all continuation (take 3 rest)
                 \<and> 0x10000 \<le> cp4 \<and> cp4 < 0x110000
         then (cp4, 3)
         else (0xDC00 + k, 0))"

text \<open>The characters of a string: each code point with the bytes that encode it.\<close>

fun utf8_chunks :: "string \<Rightarrow> (nat \<times> string) list" where
  "utf8_chunks [] = []"
| "utf8_chunks (b0 # rest) =
     (case decode_head b0 rest of
        (cp, n) \<Rightarrow> (cp, b0 # take n rest) # utf8_chunks (drop n rest))"

definition code_points :: "string \<Rightarrow> nat list" where
  "code_points s = map fst (utf8_chunks s)"

text \<open>\<open>str.strip()\<close> removes the white-space characters at both ends.\<close>

definition strip :: "string \<Rightarrow> string" where
  "strip s =
     concat (map snd
       (rev (dropWhile (\<lambda>c. isspace (fst c))
          (rev (dropWhile (\<lambda>c. isspace (fst c)) (utf8_chunks s))))))"

type_synonym extractor = "string \<Rightarrow> exn + string list"

type_synonym chat_model = "string \<Rightarrow> string \<Rightarrow> exn + string"

text \<open>\<open>entity = ents.names[0] if ents.names else "Youtube"\<close>\<close>

definition primary_entity :: "string list \<Rightarrow> string" where
  "primary_entity names = (case names of [] \<Rightarrow> ''Youtube'' | first # _ \<Rightarrow> first)"

text \<open>
  What \<open>generate_graph_visualization\<close> returns once it has the entity and the answer of
  \<open>get_graph_data\<close>: the file name, the status message and whether the button is shown.
  An exception raised by \<open>get_graph_data\<close> is caught by the \<open>except Exception\<close> of the
  function.
\<close>

definition graph_outcome ::
  "string \<Rightarrow> exn + (node_map \<times> edge list) \<Rightarrow> string option \<times> string \<times> bool" where
  "graph_outcome entity answer =
     (case answer of
        Inl e \<Rightarrow> (None, cross_mark @ '' Error generating graph: '' @ str_exn e, False)
      | Inr (node_map, relationships) \<Rightarrow>
          (if node_map = []
           then (None, cross_mark @ '' No graph data found for entity: '' @ entity, False)
           else (Some (replace_space (lower entity) @ ''_graph.html''),
                 check_mark @ '' Graph generated for entity: **'' @ entity
                   @ ''** | Nodes: '' @ show_nat (length node_map)
                   @ '' | Relationships: '' @ show_nat (length relationships),
                 True)))"

text \<open>
  \<open>generate_graph_visualization\<close>, with the calls made. An exception raised by the
  extraction is caught by the same \<open>except Exception\<close>.
\<close>

definition generate_graph_visualization ::
  "extractor \<Rightarrow> graph \<Rightarrow> raw_store \<Rightarrow> string \<Rightarrow>
     call list \<times> (string option \<times> string \<times> bool)" where
  "generate_graph_visualization entity_chain g raw question =
     (case entity_chain question of
        Inl e \<Rightarrow>
          ([ExtractCall question],
           (None, cross_mark @ '' Error generating graph: '' @ str_exn e, False))
      | Inr names \<Rightarrow>
          (let entity = primary_entity names in
           ([ExtractCall question, IndexQuery entity],
            graph_outcome entity (get_graph_data g raw entity))))"

text \<open>
  \<open>retriever\<close> wraps the structured data; \<open>chain\<close> passes it with the question to the
  chat model.
\<close>

definition retriever :: "extractor \<Rightarrow> graph \<Rightarrow> string \<Rightarrow> call list \<times> (exn + string)" where
  "retriever entity_chain g question =
     (case structured_retriever entity_chain g question of
        (calls, Inl e) \<Rightarrow> (calls, Inl e)
      | (calls, Inr structured_data) \<Rightarrow>
          (calls, Inr (''Structured data:'' @ nl @ structured_data @ nl @ ''    '')))"

definition chain :: "extractor \<Rightarrow> graph \<Rightarrow> chat_model \<Rightarrow> string \<Rightarrow> call list \<times> (exn + string)" where
  "chain entity_chain g chat question =
     (case retriever entity_chain g question of
        (calls, Inl e) \<Rightarrow> (calls, Inl e)
      | (calls, Inr context) \<Rightarrow> (calls @ [ChatCall context question], chat context question))"

type_synonym chat_history = "(string \<times> string) list"

definition process_unified_query ::
  "extractor \<Rightarrow> graph \<Rightarrow> raw_store \<Rightarrow> chat_model \<Rightarrow> string \<Rightarrow> chat_history \<Rightarrow>
     call list \<times> (chat_history \<times> string \<times> string option \<times> string \<times> bool \<times> string)" where
  "process_unified_query entity_chain g raw chat question chat_history =
     (if strip question = []
      then ([], (chat_history, [], None, warning_sign @ '' Please enter a question'', False, []))
      else
        (case chain entity_chain g chat question of
           (calls, Inl e) \<Rightarrow>
             (let error_msg = cross_mark @ '' Error: '' @ str_exn e in
              (calls, (chat_history @ [(question, error_msg)], [], None, error_msg, False, [])))
         | (calls, Inr result) \<Rightarrow>
             (case generate_graph_visualization entity_chain g raw question of
                (calls', (filename, graph_status, button)) \<Rightarrow>
                  (calls @ calls',
                   (chat_history @ [(question, result)], [], filename, graph_status, button, [])))))"

section \<open>Extractors and graphs used in the examples\<close>

text \<open>An entity extractor that answers every question with the same names, and one that fails.\<close>

definition always :: "string list \<Rightarrow> extractor" where
  "always names question = Inr names"

definition failing :: "string \<Rightarrow> extractor" where
  "failing msg question = Inl (Failure msg)"

definition named :: "string \<Rightarrow> node" where
  "named i = \<lparr>element_id = ''element:'' @ i, node_id = Some i\<rparr>"

definition edge_of :: "string \<Rightarrow> string \<Rightarrow> string \<Rightarrow> relationship" where
  "edge_of s ty t =
     \<lparr>rel_element_id = s @ ''/'' @ ty @ ''/'' @ t, startNode = named s, rel_type = ty,
      endNode = named t\<rparr>"

text \<open>Nodes \<open>A\<close>, \<open>B\<close>, \<open>C\<close> with \<open>A -[WORKS_FOR]-> B\<close> and \<open>B -[LOCATED_IN]-> C\<close>.\<close>

definition abc_graph :: graph where
  "abc_graph =
     \<lparr>graph_nodes = [named ''A'', named ''B'', named ''C''],
      graph_rels = [edge_of ''A'' ''WORKS_FOR'' ''B'', edge_of ''B'' ''LOCATED_IN'' ''C'']\<rparr>"

text \<open>Nodes \<open>Acme\<close> and \<open>Bob\<close> with \<open>Bob -[WORKS_FOR]-> Acme\<close>.\<close>

definition acme_graph :: graph where
  "acme_graph =
     \<lparr>graph_nodes = [named ''Acme'', named ''Bob''],
      graph_rels = [edge_of ''Bob'' ''WORKS_FOR'' ''Acme'']\<rparr>"

text \<open>A single node \<open>Solo\<close> and no relationship.\<close>

definition solo_graph :: graph where
  "solo_graph = \<lparr>graph_nodes = [named ''Solo''], graph_rels = []\<rparr>"

text \<open>A cycle \<open>A -[KNOWS]-> B -[KNOWS]-> A\<close> with a tail \<open>B -[LIKES]-> C\<close>.\<close>

definition cycle_graph :: graph where
  "cycle_graph =
     \<lparr>graph_nodes = [named ''A'', named ''B'', named ''C''],
      graph_rels = [edge_of ''A'' ''KNOWS'' ''B'', edge_of ''B'' ''KNOWS'' ''A'',
                    edge_of ''B'' ''LIKES'' ''C'']\<rparr>"

text \<open>Two islands, \<open>A -[R]-> X\<close> and \<open>B -[S]-> Y\<close>.\<close>

definition islands_graph :: graph where
  "islands_graph =
     \<lparr>graph_nodes = [named ''A'', named ''X'', named ''B'', named ''Y''],
      graph_rels = [edge_of ''A'' ''R'' ''X'', edge_of ''B'' ''S'' ''Y'']\<rparr>"

text \<open>A store that answers every text outside the model with a syntax error.\<close>

definition rejecting :: raw_store where
  "rejecting sent = Inl (Failure ''Invalid input'')"

text \<open>A chat model that gives the same reply to every prompt.\<close>

definition answering :: "string \<Rightarrow> chat_model" where
  "answering reply context question = Inr reply"

text \<open>
  The texts of several retrievals put together as the loop does: the first error ends
  it, otherwise the texts are joined in order.
\<close>

fun concat_texts :: "(exn + string) list \<Rightarrow> exn + string" where
  "concat_texts [] = Inr []"
| "concat_texts (Inl e # rest) = Inl e"
| "concat_texts (Inr t # rest) =
     (case concat_texts rest of Inl e \<Rightarrow> Inl e | Inr u \<Rightarrow> Inr (t @ u))"

text \<open>
  The index form for a list of entities in the words of the specification: the rows of
  the entities, in input order, merged into one shared node index and relationship list.
\<close>

definition spec_retrieve :: "graph \<Rightarrow> string list \<Rightarrow> exn + (node_map \<times> edge list)" where
  "spec_retrieve g names = index_rows (cy_distinct (concat (map (index_query g) names))) [] [] 0"

text \<open>
  For the proofs about \<open>index_rows\<close>: what each of its two \<open>if ... not in node_map\<close>
  blocks does to the dictionary, and the keys of the rows in the order the loop meets them.
\<close>

definition remember :: "node_map \<Rightarrow> string \<Rightarrow> node_map" where
  "remember node_map k =
     (if map_of node_map k = None then node_map @ [(k, length node_map)] else node_map)"

definition row_keys :: "(node \<times> string \<times> node) list \<Rightarrow> string list" where
  "row_keys rows = concat (map (\<lambda>(s, r, t). [node_key s, node_key t]) rows)"

text \<open>A row and the relationship entry made for it, under a dictionary.\<close>

definition indexed_as :: "node_map \<Rightarrow> node \<times> string \<times> node \<Rightarrow> edge \<Rightarrow> bool" where
  "indexed_as node_map row e =
     (case row of (s, r, t) \<Rightarrow>
        map_of node_map (node_key s) = Some (source e)
        \<and> map_of node_map (node_key t) = Some (target e)
        \<and> caption e = r)"

text \<open>
  Walks in the graph, for stating what the traversal reaches: \<open>walk u p\<close> holds when the
  relationships \<open>p\<close> follow one another starting at the node \<open>u\<close>, each from its start
  node to its end node; \<open>path_end u p\<close> is the node where the walk ends. A walk may use a
  relationship any number of times.
\<close>

fun walk :: "node \<Rightarrow> relationship list \<Rightarrow> bool" where
  "walk u [] = True"
| "walk u (r # p) = (startNode r = u \<and> walk (endNode r) p)"

fun path_end :: "node \<Rightarrow> relationship list \<Rightarrow> node" where
  "path_end u [] = u"
| "path_end u (r # p) = path_end (endNode r) p"

section \<open>The end-to-end scenario\<close>

text \<open>
  Claim C1. On the graph with nodes \<open>A\<close>, \<open>B\<close>, \<open>C\<close> and exactly the edges
  \<open>A -[WORKS_FOR]-> B\<close> and \<open>B -[LOCATED_IN]-> C\<close>, the text retrieved for the single
  entity \<open>A\<close> is the line \<open>A -[WORKS_FOR]-> B\<close>, then the line \<open>B -[LOCATED_IN]-> C\<close>
  (the two in lexicographic order), then the line \<open>Grandparent id of A: C\<close>.
\<close>

theorem end_to_end_abc:
  "snd (structured_retriever (always [''A'']) abc_graph question) =
     Inr (''A -[WORKS_FOR]-> B'' @ nl @ ''B -[LOCATED_IN]-> C'' @ nl
          @ ''Grandparent id of A: C'' @ nl)"
  by code_simp

section \<open>Case-insensitive node resolution\<close>

lemma anchors_fold: "toLower e1 = toLower e2 \<Longrightarrow> anchors g e1 = anchors g e2"
  by (simp add: anchors_def cong: option.case_cong)

lemma set_anchors:
  "set (anchors g e) = {n \<in> set (graph_nodes g). \<exists>i. node_id n = Some i \<and> toLower i = toLower e}"
  by (auto simp: anchors_def split: option.splits)

text \<open>
  Claim C2, as amended. Two entity names that are equal after \<open>toLower\<close> resolve to the
  same anchor nodes on every graph: the nodes whose \<open>id\<close>, lower-cased, equals the
  lower-cased name, however many they are. So the relationship query and the grandparent
  query of the text form, and the query of the index form, return the same rows for
  both names; and \<open>get_graph_data\<close> returns the same result for both when each is
  written into its query text unchanged (it holds no single quote and no backslash).
\<close>

theorem case_folded_names:
  "toLower e1 = toLower e2 \<Longrightarrow>
     anchors g e1 = anchors g e2
     \<and> set (anchors g e1) =
         {n \<in> set (graph_nodes g). \<exists>i. node_id n = Some i \<and> toLower i = toLower e1}
     \<and> text_query g e1 = text_query g e2
     \<and> grandparent_query g e1 = grandparent_query g e2
     \<and> index_query g e1 = index_query g e2
     \<and> (interpolates_verbatim e1 \<and> interpolates_verbatim e2 \<longrightarrow>
          get_graph_data g raw e1 = get_graph_data g raw e2)"
proof -
  assume eq: "toLower e1 = toLower e2"
  have a: "anchors g e1 = anchors g e2" by (rule anchors_fold [OF eq])
  have out: "outgoing_rels g e1 = outgoing_rels g e2" by (simp add: outgoing_rels_def a)
  have inc: "incoming_rels g e1 = incoming_rels g e2" by (simp add: incoming_rels_def a)
  have t: "text_query g e1 = text_query g e2" by (simp add: text_query_def out inc)
  have gp: "grandparent_query g e1 = grandparent_query g e2" by (simp add: grandparent_query_def a)
  have ix: "index_query g e1 = index_query g e2" by (simp add: index_query_def out inc)
  have gd: "interpolates_verbatim e1 \<and> interpolates_verbatim e2 \<longrightarrow>
          get_graph_data g raw e1 = get_graph_data g raw e2"
    by (simp add: get_graph_data_def run_query_def ix)
  show ?thesis using a t gp ix gd set_anchors by blast
qed

text \<open>The names \<open>ACME\<close> and \<open>acme\<close> on the graph whose node is \<open>Acme\<close>.\<close>

theorem case_folded_names_witness:
  "toLower ''ACME'' = toLower ''acme''
   \<and> anchors acme_graph ''ACME'' = [named ''Acme'']
   \<and> anchors acme_graph ''acme'' = [named ''Acme'']
   \<and> text_query acme_graph ''ACME'' = text_query acme_graph ''acme''
   \<and> get_graph_data acme_graph rejecting ''ACME'' = get_graph_data acme_graph rejecting ''acme''
   \<and> get_graph_data acme_graph rejecting ''acme'' =
        Inr ([(''Bob'', 0), (''Acme'', 1)], [\<lparr>source = 0, target = 1, caption = ''WORKS_FOR''\<rparr>])"
proof -
  have h: "toLower ''ACME'' = toLower ''acme''" by code_simp
  have v: "interpolates_verbatim ''ACME'' \<and> interpolates_verbatim ''acme''" by code_simp
  have a1: "anchors acme_graph ''ACME'' = [named ''Acme'']" by code_simp
  have g: "get_graph_data acme_graph rejecting ''acme'' =
        Inr ([(''Bob'', 0), (''Acme'', 1)], [\<lparr>source = 0, target = 1, caption = ''WORKS_FOR''\<rparr>])"
    by code_simp
  show ?thesis using h v a1 g case_folded_names [OF h, of acme_graph rejecting] by simp
qed

text \<open>
  Claim C2 as stated goes on to say that retrieval therefore returns the same result.
  The text form does not: its grandparent line (and its no-match line) quote the entity as
  it was given.
\<close>

theorem entity_name_is_quoted_as_given:
  "toLower ''ACME'' = toLower ''acme''
   \<and> snd (structured_retriever (always [''ACME'']) acme_graph ''Who works for ACME?'')
       = Inr (''Bob -[WORKS_FOR]-> Acme'' @ nl @ ''No grandparent found for ACME'' @ nl)
   \<and> snd (structured_retriever (always [''acme'']) acme_graph ''Who works for ACME?'')
       = Inr (''Bob -[WORKS_FOR]-> Acme'' @ nl @ ''No grandparent found for acme'' @ nl)
   \<and> snd (structured_retriever (always [''ACME'']) acme_graph ''Who works for ACME?'')
       \<noteq> snd (structured_retriever (always [''acme'']) acme_graph ''Who works for ACME?'')"
  by code_simp

section \<open>The blank question\<close>

lemma dropWhile_all: "(\<forall>c\<in>set (dropWhile P q). P c) = (\<forall>c\<in>set q. P c)"
proof (cases "dropWhile P q = []")
  case True
  then have "\<forall>c\<in>set q. P c" by (simp add: dropWhile_eq_Nil_conv)
  then show ?thesis by (auto dest: set_dropWhileD)
next
  case False
  then have "hd (dropWhile P q) \<in> set (dropWhile P q)" "\<not> P (hd (dropWhile P q))"
    by (simp_all add: hd_dropWhile)
  moreover have "set (dropWhile P q) \<subseteq> set q" by (auto dest: set_dropWhileD)
  ultimately show ?thesis by blast
qed

lemma chunk_bytes: "c \<in> set (utf8_chunks s) \<Longrightarrow> snd c \<noteq> []"
proof (induction s arbitrary: c rule: utf8_chunks.induct)
  case 1
  then show ?case by simp
next
  case (2 b0 rest)
  obtain cp n where d: "decode_head b0 rest = (cp, n)" by (cases "decode_head b0 rest")
  from "2.prems" d have "c = (cp, b0 # take n rest) \<or> c \<in> set (utf8_chunks (drop n rest))"
    by simp
  then show ?case
  proof
    assume "c = (cp, b0 # take n rest)"
    then show ?thesis by simp
  next
    assume "c \<in> set (utf8_chunks (drop n rest))"
    then show ?thesis by (rule "2.IH" [OF d [symmetric]])
  qed
qed

lemma strip_blank: "(strip q = []) = list_all isspace (code_points q)"
proof -
  let ?P = "\<lambda>c. isspace (fst c)"
  define kept where "kept = rev (dropWhile ?P (rev (dropWhile ?P (utf8_chunks q))))"
  have "set (dropWhile ?P (rev (dropWhile ?P (utf8_chunks q))))
          \<subseteq> set (dropWhile ?P (utf8_chunks q))"
    using set_dropWhileD [of _ ?P "rev (dropWhile ?P (utf8_chunks q))"] by auto
  moreover have "set (dropWhile ?P (utf8_chunks q)) \<subseteq> set (utf8_chunks q)"
    using set_dropWhileD [of _ ?P "utf8_chunks q"] by auto
  ultimately have sub: "set kept \<subseteq> set (utf8_chunks q)" by (simp add: kept_def)
  have bytes: "\<And>c. c \<in> set kept \<Longrightarrow> snd c \<noteq> []"
    using sub chunk_bytes by blast
  have "strip q = concat (map snd kept)" by (simp add: strip_def kept_def)
  then have "(strip q = []) = (\<forall>c\<in>set kept. snd c = [])" by simp
  also have "\<dots> = (kept = [])"
  proof (cases kept)
    case Nil
    then show ?thesis by simp
  next
    case (Cons c cs)
    then have "c \<in> set kept" by simp
    then have "snd c \<noteq> []" by (rule bytes)
    then show ?thesis using Cons by simp
  qed
  also have "\<dots> = (\<forall>c\<in>set (dropWhile ?P (utf8_chunks q)). ?P c)"
    by (simp add: kept_def dropWhile_eq_Nil_conv)
  also have "\<dots> = (\<forall>c\<in>set (utf8_chunks q). ?P c)" by (rule dropWhile_all)
  finally show ?thesis by (simp add: code_points_def list_all_iff)
qed

lemma strip_head:
  "\<not> isspace (fst (decode_head b rest)) \<Longrightarrow> strip (b # rest) \<noteq> []"
proof -
  assume a: "\<not> isspace (fst (decode_head b rest))"
  have "\<not> list_all isspace (code_points (b # rest))"
    using a by (cases "decode_head b rest") (simp add: code_points_def)
  then show ?thesis by (simp only: strip_blank [symmetric] not_False_eq_True)
qed

lemma strip_acme: "strip ''Who runs Acme?'' \<noteq> []"
  by (rule strip_head) (simp add: decode_head_def isspace_def Let_def)

text \<open>
  Claim C10. When the question is empty or holds white space only (every character of it
  is white space for \<open>str.isspace\<close>, the white space of Unicode), \<open>process_unified_query\<close>
  returns the chat history it was given and the status asking for a question; it makes no
  call to the entity extractor, to the graph store or to the chat model (the list of calls
  is empty).
\<close>

theorem blank_question:
  "list_all isspace (code_points question) \<Longrightarrow>
     process_unified_query entity_chain g raw chat question chat_history =
       ([], (chat_history, [], None, warning_sign @ '' Please enter a question'', False, []))"
  by (simp add: process_unified_query_def strip_blank)

text \<open>
  A question of a space, a tab, a line feed, a no-break space (\<open>U+00A0\<close>) and an
  ideographic space (\<open>U+3000\<close>), with one earlier exchange in the history; and the empty
  question.
\<close>

theorem blank_question_witness:
  "code_points [CHR '' '', CHR 0x09, CHR 0x0A, CHR 0xC2, CHR 0xA0, CHR 0xE3, CHR 0x80, CHR 0x80]
     = [0x20, 0x09, 0x0A, 0xA0, 0x3000]
   \<and> list_all isspace [0x20, 0x09, 0x0A, 0xA0, 0x3000]
   \<and> process_unified_query (always [''A'']) abc_graph rejecting (answering ''answer'')
       [CHR '' '', CHR 0x09, CHR 0x0A, CHR 0xC2, CHR 0xA0, CHR 0xE3, CHR 0x80, CHR 0x80]
       [(''earlier'', ''reply'')] =
     ([], ([(''earlier'', ''reply'')], [], None, warning_sign @ '' Please enter a question'',
           False, []))
   \<and> process_unified_query (always [''A'']) abc_graph rejecting (answering ''answer'') [] [] =
     ([], ([], [], None, warning_sign @ '' Please enter a question'', False, []))"
proof -
  have c: "code_points [CHR '' '', CHR 0x09, CHR 0x0A, CHR 0xC2, CHR 0xA0, CHR 0xE3, CHR 0x80, CHR 0x80]
     = [0x20, 0x09, 0x0A, 0xA0, 0x3000]"
    by (simp add: code_points_def decode_head_def low_bits_def continuation_def Let_def)
  have s: "list_all isspace [0x20, 0x09, 0x0A, 0xA0, 0x3000]" by (simp add: isspace_def)
  have h: "list_all isspace
      (code_points [CHR '' '', CHR 0x09, CHR 0x0A, CHR 0xC2, CHR 0xA0, CHR 0xE3, CHR 0x80, CHR 0x80])"
    using c s by simp
  have e: "list_all isspace (code_points [])" by (simp add: code_points_def)
  show ?thesis
    using c s
      blank_question [OF h, of "always [''A'']" abc_graph rejecting "answering ''answer''"
        "[(''earlier'', ''reply'')]"]
      blank_question [OF e, of "always [''A'']" abc_graph rejecting "answering ''answer''" "[]"]
    by simp
qed

section \<open>Rows returned by the queries\<close>

declare trails_from.simps [simp del] trails_into.simps [simp del]

lemma set_cy_distinct [simp]: "set (cy_distinct xs) = set xs"
  by (simp add: cy_distinct_def)

lemma distinct_cy_distinct [simp]: "distinct (cy_distinct xs)"
  by (simp add: cy_distinct_def)

lemma cy_distinct_Nil [simp]: "(cy_distinct xs = []) = (xs = [])"
  by (simp add: cy_distinct_def)

lemma set_unwind_optional:
  "set (unwind_relationships (concat (map (\<lambda>n. optional_match (f n)) ns))) =
     (\<Union>n\<in>set ns. \<Union>p\<in>set (f n). set p)"
  by (induction ns) (auto simp: unwind_relationships_def optional_match_def)

lemma set_outgoing_rels:
  "set (outgoing_rels g e) =
     (\<Union>n\<in>set (anchors g e). \<Union>p\<in>set (trails_from (graph_rels g) n). set p)"
  by (simp add: outgoing_rels_def set_unwind_optional)

lemma set_incoming_rels:
  "set (incoming_rels g e) =
     (\<Union>n\<in>set (anchors g e). \<Union>p\<in>set (trails_into (graph_rels g) n). set p)"
  by (simp add: incoming_rels_def set_unwind_optional)

lemma trails_from_edges_Nil:
  "((\<Union>p\<in>set (trails_from rs n). set p) = {}) = (\<forall>r\<in>set rs. startNode r \<noteq> n)"
  by (subst trails_from.simps) auto

lemma trails_into_edges_Nil:
  "((\<Union>p\<in>set (trails_into rs n). set p) = {}) = (\<forall>r\<in>set rs. endNode r \<noteq> n)"
  by (subst trails_into.simps) auto

lemma somes_set:
  "set (concat (map (\<lambda>x. case x of None \<Rightarrow> [] | Some s \<Rightarrow> [s]) rows)) = {s. Some s \<in> set rows}"
  by (induction rows) (auto split: option.splits)

lemma somes_distinct:
  "distinct rows \<Longrightarrow> distinct (concat (map (\<lambda>x. case x of None \<Rightarrow> [] | Some s \<Rightarrow> [s]) rows))"
  by (induction rows) (auto simp: somes_set split: option.splits)

lemma set_order_by [simp]: "set (order_by rows) = set rows"
proof -
  have "\<And>x. x \<in> set rows \<Longrightarrow> x \<in> set (order_by rows)"
    by (case_tac x) (auto simp: order_by_def somes_set)
  moreover have "\<And>x. x \<in> set (order_by rows) \<Longrightarrow> x \<in> set rows"
    by (auto simp: order_by_def somes_set)
  ultimately show ?thesis by blast
qed

lemma distinct_order_by: "distinct rows \<Longrightarrow> distinct (order_by rows)"
  by (auto simp: order_by_def somes_distinct distinct_map)

lemma order_by_Nil [simp]: "(order_by rows = []) = (rows = [])"
  using set_order_by [of rows] by (metis set_empty)

lemma text_query_Nil:
  "(text_query g e = []) = (outgoing_rels g e = [] \<and> incoming_rels g e = [])"
  by (simp add: text_query_def)

lemma index_query_Nil:
  "(index_query g e = []) = (outgoing_rels g e = [] \<and> incoming_rels g e = [])"
  by (simp add: index_query_def)

lemma outgoing_rels_Nil:
  "(outgoing_rels g e = []) = (\<forall>n\<in>set (anchors g e). \<forall>r\<in>set (graph_rels g). startNode r \<noteq> n)"
proof -
  have "(outgoing_rels g e = []) = (set (outgoing_rels g e) = {})" by simp
  also have "\<dots> = (\<forall>n\<in>set (anchors g e). (\<Union>p\<in>set (trails_from (graph_rels g) n). set p) = {})"
    unfolding set_outgoing_rels by blast
  finally show ?thesis by (simp only: trails_from_edges_Nil)
qed

lemma incoming_rels_Nil:
  "(incoming_rels g e = []) = (\<forall>n\<in>set (anchors g e). \<forall>r\<in>set (graph_rels g). endNode r \<noteq> n)"
proof -
  have "(incoming_rels g e = []) = (set (incoming_rels g e) = {})" by simp
  also have "\<dots> = (\<forall>n\<in>set (anchors g e). (\<Union>p\<in>set (trails_into (graph_rels g) n). set p) = {})"
    unfolding set_incoming_rels by blast
  finally show ?thesis by (simp only: trails_into_edges_Nil)
qed

lemma no_rows_iff:
  "(text_query g e = []) =
     (\<forall>n\<in>set (anchors g e). \<forall>r\<in>set (graph_rels g). startNode r \<noteq> n \<and> endNode r \<noteq> n)"
  unfolding text_query_Nil outgoing_rels_Nil incoming_rels_Nil by blast

lemma no_anchor_grandparent:
  "anchors g e = [] \<Longrightarrow> grandparent_text g e = ''No grandparent found for '' @ e @ nl"
  by (simp add: grandparent_text_def grandparent_query_def cy_distinct_def)

section \<open>The no-match line\<close>

text \<open>
  Claim C4, as amended. When no node matches the entity, the entity contributes to the
  text the line \<open>No relationships found for entity: {e}\<close> and no relationship line
  (the line \<open>No grandparent found for {e}\<close> follows it); and when, besides, the entity is
  written into the query text of \<open>get_graph_data\<close> unchanged (it holds no single quote and
  no backslash), it contributes no node and no relationship to the index form. The
  no-match line is produced exactly when the
  relationship query returns no row, that is, when no anchor of the entity is the start or
  the end of a relationship: when there is no anchor, and also when every anchor is an
  isolated node. When the query returns rows, the relationship lines are produced
  instead.
\<close>

theorem no_match_line:
  "(anchors g entity = [] \<longrightarrow>
      relationship_text g entity = Inr (''No relationships found for entity: '' @ entity @ nl)
      \<and> grandparent_text g entity = ''No grandparent found for '' @ entity @ nl
      \<and> index_query g entity = []
      \<and> (interpolates_verbatim entity \<longrightarrow> get_graph_data g raw entity = Inr ([], [])))
   \<and> (text_query g entity = []) =
        (\<forall>n\<in>set (anchors g entity). \<forall>r\<in>set (graph_rels g). startNode r \<noteq> n \<and> endNode r \<noteq> n)
   \<and> (index_query g entity = []) = (text_query g entity = [])
   \<and> (text_query g entity = [] \<longrightarrow>
        relationship_text g entity = Inr (''No relationships found for entity: '' @ entity @ nl))
   \<and> (text_query g entity \<noteq> [] \<longrightarrow>
        relationship_text g entity =
          (case outputs_from 0 (text_query g entity) of
             Inl e \<Rightarrow> Inl e
           | Inr ls \<Rightarrow> Inr (join_nl ls @ nl)))"
proof -
  have a: "anchors g entity = [] \<Longrightarrow> text_query g entity = []"
    by (simp add: no_rows_iff)
  have b: "anchors g entity = [] \<Longrightarrow> index_query g entity = []"
    using a by (simp add: index_query_Nil text_query_Nil)
  have c: "text_query g entity = [] \<Longrightarrow>
        relationship_text g entity = Inr (''No relationships found for entity: '' @ entity @ nl)"
    by (simp add: relationship_text_def)
  have d: "text_query g entity \<noteq> [] \<Longrightarrow>
        relationship_text g entity =
          (case outputs_from 0 (text_query g entity) of
             Inl e \<Rightarrow> Inl e
           | Inr ls \<Rightarrow> Inr (join_nl ls @ nl))"
    by (simp add: relationship_text_def Let_def)
  have e: "anchors g entity = [] \<Longrightarrow> interpolates_verbatim entity \<Longrightarrow>
        get_graph_data g raw entity = Inr ([], [])"
    using b by (simp add: get_graph_data_def run_query_def)
  have f: "(index_query g entity = []) = (text_query g entity = [])"
    by (simp add: index_query_Nil text_query_Nil)
  show ?thesis using a b c d e f no_rows_iff [of g entity] no_anchor_grandparent [of g entity]
    by blast
qed

text \<open>
  The entity \<open>Ghost\<close>, which no node of the three-node graph matches; the isolated node
  \<open>Solo\<close>; and the entity \<open>a\<close>, whose anchor has relationships.
\<close>

theorem no_match_line_witness:
  "anchors abc_graph ''Ghost'' = []
   \<and> relationship_text abc_graph ''Ghost'' = Inr (''No relationships found for entity: Ghost'' @ nl)
   \<and> grandparent_text abc_graph ''Ghost'' = ''No grandparent found for Ghost'' @ nl
   \<and> interpolates_verbatim ''Ghost''
   \<and> get_graph_data abc_graph rejecting ''Ghost'' = Inr ([], [])
   \<and> text_query solo_graph ''solo'' = []
   \<and> relationship_text solo_graph ''solo'' = Inr (''No relationships found for entity: solo'' @ nl)
   \<and> text_query abc_graph ''a'' \<noteq> []
   \<and> relationship_text abc_graph ''a'' =
        Inr (''A -[WORKS_FOR]-> B'' @ nl @ ''B -[LOCATED_IN]-> C'' @ nl)"
proof -
  have h1: "anchors abc_graph ''Ghost'' = []" by code_simp
  have h2: "interpolates_verbatim ''Ghost''" by code_simp
  have h3: "text_query solo_graph ''solo'' = []" by code_simp
  have h4: "text_query abc_graph ''a'' = [Some ''A -[WORKS_FOR]-> B'', Some ''B -[LOCATED_IN]-> C'']"
    by code_simp
  show ?thesis
    using h1 h2 h3 h4 no_match_line [of abc_graph "''Ghost''" rejecting]
      no_match_line [of solo_graph "''solo''" rejecting] no_match_line [of abc_graph "''a''" rejecting]
    by simp
qed

text \<open>
  Claim C4 as stated says the no-match line is produced only when no anchor node is
  found. The node \<open>Solo\<close> is found, and the line is produced.
\<close>

theorem isolated_anchor_gets_no_match_line:
  "anchors solo_graph ''Solo'' = [named ''Solo'']
   \<and> snd (structured_retriever (always [''Solo'']) solo_graph ''Where is Solo?'') =
       Inr (''No relationships found for entity: Solo'' @ nl @ ''No grandparent found for Solo'' @ nl)"
  by code_simp

section \<open>The order of the relationship lines\<close>

text \<open>
  Claim C5 says that the relationship lines of an entity are in lexicographic order of the
  rendered string, one order over the outgoing and incoming relationships together. The
  \<open>ORDER BY output\<close> of the query orders its second half only. For the entity \<open>b\<close> on the
  three-node graph the outgoing line \<open>B -[LOCATED_IN]-> C\<close> comes before the incoming line
  \<open>A -[WORKS_FOR]-> B\<close>, and the two lines are not in order.
\<close>

theorem outgoing_lines_are_not_ordered:
  "text_query abc_graph ''b'' = [Some ''B -[LOCATED_IN]-> C'', Some ''A -[WORKS_FOR]-> B'']
   \<and> relationship_text abc_graph ''b'' =
       Inr (''B -[LOCATED_IN]-> C'' @ nl @ ''A -[WORKS_FOR]-> B'' @ nl)
   \<and> \<not> sorted [''B -[LOCATED_IN]-> C'', ''A -[WORKS_FOR]-> B'']
   \<and> snd (structured_retriever (always [''b'']) abc_graph ''Where is b?'') =
       Inr (''B -[LOCATED_IN]-> C'' @ nl @ ''A -[WORKS_FOR]-> B'' @ nl
            @ ''No grandparent found for b'' @ nl)"
  by code_simp

text \<open>What the query does order: the lines of the incoming relationships among themselves.\<close>

lemma incoming_lines_sorted:
  "sorted (concat (map (\<lambda>x. case x of None \<Rightarrow> [] | Some s \<Rightarrow> [s])
             (order_by (map rel_output (incoming_rels g entity)))))"
proof -
  have "concat (map (\<lambda>x. case x of None \<Rightarrow> [] | Some s \<Rightarrow> [s]) (order_by rows)) =
        sort (concat (map (\<lambda>x. case x of None \<Rightarrow> [] | Some s \<Rightarrow> [s]) rows))" for rows
  proof -
    have a: "concat (map ((\<lambda>x. case x of None \<Rightarrow> [] | Some s \<Rightarrow> [s]) \<circ> Some) ls) = ls"
      for ls :: "string list" by (induction ls) auto
    have b: "concat (map (\<lambda>x. case x of None \<Rightarrow> [] | Some s \<Rightarrow> [s])
               (filter (\<lambda>x. x = None) rs)) = []" for rs :: "string option list"
      by (induction rs) auto
    show ?thesis by (simp add: order_by_def a b)
  qed
  then show ?thesis by simp
qed

section \<open>Several entities\<close>

lemma snd_retrieve_loop_Cons:
  "snd (retrieve_loop g (e # names) acc) =
     (case relationship_text g e of
        Inl x \<Rightarrow> Inl x
      | Inr block \<Rightarrow> snd (retrieve_loop g names (acc @ block @ grandparent_text g e)))"
  by (simp split: sum.splits prod.splits)

declare retrieve_loop.simps(2) [simp del]

lemma retrieve_loop_acc:
  "snd (retrieve_loop g names acc) =
     (case snd (retrieve_loop g names []) of Inl e \<Rightarrow> Inl e | Inr t \<Rightarrow> Inr (acc @ t))"
proof (induction names arbitrary: acc)
  case Nil
  then show ?case by simp
next
  case (Cons e names)
  show ?case
  proof (cases "relationship_text g e")
    case (Inl x)
    then show ?thesis by (simp add: snd_retrieve_loop_Cons)
  next
    case (Inr block)
    have 1: "snd (retrieve_loop g names (acc @ block @ grandparent_text g e)) =
       (case snd (retrieve_loop g names []) of Inl e \<Rightarrow> Inl e
        | Inr t \<Rightarrow> Inr ((acc @ block @ grandparent_text g e) @ t))"
      by (rule Cons.IH)
    have 2: "snd (retrieve_loop g names (block @ grandparent_text g e)) =
       (case snd (retrieve_loop g names []) of Inl e \<Rightarrow> Inl e
        | Inr t \<Rightarrow> Inr ((block @ grandparent_text g e) @ t))"
      by (rule Cons.IH)
    show ?thesis
      unfolding snd_retrieve_loop_Cons Inr using 1 2
      by (cases "snd (retrieve_loop g names [])") simp_all
  qed
qed

lemma retrieve_loop_concat:
  "snd (retrieve_loop g names []) = concat_texts (map (\<lambda>e. snd (retrieve_loop g [e] [])) names)"
proof (induction names)
  case Nil
  then show ?case by simp
next
  case (Cons e names)
  show ?case
  proof (cases "relationship_text g e")
    case (Inl x)
    then show ?thesis by (simp add: snd_retrieve_loop_Cons)
  next
    case (Inr block)
    have "snd (retrieve_loop g (e # names) []) = snd (retrieve_loop g names (block @ grandparent_text g e))"
      using Inr by (simp add: snd_retrieve_loop_Cons)
    also have "\<dots> = (case snd (retrieve_loop g names []) of Inl e \<Rightarrow> Inl e
        | Inr t \<Rightarrow> Inr ((block @ grandparent_text g e) @ t))"
      by (rule retrieve_loop_acc)
    finally show ?thesis using Inr Cons.IH
      by (cases "concat_texts (map (\<lambda>e. snd (retrieve_loop g [e] [])) names)")
         (simp_all add: snd_retrieve_loop_Cons)
  qed
qed

lemma structured_retriever_always:
  "snd (structured_retriever (always names) g question) = snd (retrieve_loop g names [])"
  by (simp add: structured_retriever_def always_def split: prod.splits)

lemma visualization_first:
  "generate_graph_visualization (always (e1 # rest)) g raw question =
     generate_graph_visualization (always [e1]) g raw question"
  by (simp add: generate_graph_visualization_def always_def primary_entity_def)

text \<open>
  Claim C7, as amended. For every list of entity names, the text retrieved is the
  concatenation, in input order, of the texts retrieved for each name alone (an error
  raised for one name ends the retrieval). The index form is built for one entity only,
  the first of the list: for a list that starts with \<open>e1\<close> it is the index form of
  \<open>e1\<close> alone.
\<close>

theorem text_is_concatenation:
  "snd (structured_retriever (always names) g question) =
     concat_texts (map (\<lambda>e. snd (structured_retriever (always [e]) g question)) names)
   \<and> get_graph_data g raw (primary_entity (e1 # rest)) = get_graph_data g raw e1
   \<and> generate_graph_visualization (always (e1 # rest)) g raw question =
       generate_graph_visualization (always [e1]) g raw question"
proof -
  have "snd (structured_retriever (always names) g question) =
     concat_texts (map (\<lambda>e. snd (retrieve_loop g [e] [])) names)"
    unfolding structured_retriever_always by (rule retrieve_loop_concat)
  then have "snd (structured_retriever (always names) g question) =
     concat_texts (map (\<lambda>e. snd (structured_retriever (always [e]) g question)) names)"
    by (simp only: structured_retriever_always)
  moreover have "get_graph_data g raw (primary_entity (e1 # rest)) = get_graph_data g raw e1"
    by (simp add: primary_entity_def)
  ultimately show ?thesis using visualization_first by blast
qed

text \<open>The names \<open>A\<close> and \<open>Ghost\<close>, and the names \<open>A\<close> and \<open>B\<close>, on the two islands.\<close>

theorem text_is_concatenation_witness:
  "snd (structured_retriever (always [''A'', ''Ghost'']) islands_graph ''q'') =
     Inr ((''A -[R]-> X'' @ nl @ ''No grandparent found for A'' @ nl)
          @ (''No relationships found for entity: Ghost'' @ nl @ ''No grandparent found for Ghost'' @ nl))
   \<and> snd (structured_retriever (always [''A'']) islands_graph ''q'') =
       Inr (''A -[R]-> X'' @ nl @ ''No grandparent found for A'' @ nl)
   \<and> snd (structured_retriever (always [''Ghost'']) islands_graph ''q'') =
       Inr (''No relationships found for entity: Ghost'' @ nl @ ''No grandparent found for Ghost'' @ nl)
   \<and> generate_graph_visualization (always [''A'', ''B'']) islands_graph rejecting ''q'' =
       generate_graph_visualization (always [''A'']) islands_graph rejecting ''q''"
proof -
  have a: "snd (structured_retriever (always [''A'']) islands_graph ''q'') =
       Inr (''A -[R]-> X'' @ nl @ ''No grandparent found for A'' @ nl)" by code_simp
  have b: "snd (structured_retriever (always [''Ghost'']) islands_graph ''q'') =
       Inr (''No relationships found for entity: Ghost'' @ nl @ ''No grandparent found for Ghost'' @ nl)"
    by code_simp
  show ?thesis
    using a b text_is_concatenation [of "[''A'', ''Ghost'']" islands_graph "''q''" rejecting "''A''" "[''B'']"]
    by simp
qed

text \<open>
  Claim C7 as stated has the index form of two entities equal to the merge of their two
  index forms. On the two islands the index form for the names \<open>A\<close>, \<open>B\<close> holds the
  island of \<open>A\<close> only.
\<close>

theorem index_form_is_not_a_merge:
  "get_graph_data islands_graph rejecting (primary_entity [''A'', ''B'']) =
     Inr ([(''A'', 0), (''X'', 1)], [\<lparr>source = 0, target = 1, caption = ''R''\<rparr>])
   \<and> get_graph_data islands_graph rejecting ''B'' =
     Inr ([(''B'', 0), (''Y'', 1)], [\<lparr>source = 0, target = 1, caption = ''S''\<rparr>])
   \<and> spec_retrieve islands_graph [''A'', ''B''] =
     Inr ([(''A'', 0), (''X'', 1), (''B'', 2), (''Y'', 3)],
          [\<lparr>source = 0, target = 1, caption = ''R''\<rparr>, \<lparr>source = 2, target = 3, caption = ''S''\<rparr>])
   \<and> get_graph_data islands_graph rejecting (primary_entity [''A'', ''B'']) \<noteq>
       spec_retrieve islands_graph [''A'', ''B'']"
  by code_simp

section \<open>A failing entity extractor\<close>


lemma retriever_passes_error:
  "entity_chain question = Inl e \<Longrightarrow>
     structured_retriever entity_chain g question = ([ExtractCall question], Inl e)"
  by (simp add: structured_retriever_def)

lemma chain_passes_error:
  "entity_chain question = Inl e \<Longrightarrow>
     chain entity_chain g chat question = ([ExtractCall question], Inl e)"
  by (simp add: chain_def retriever_def retriever_passes_error)

lemma visualization_catches_error:
  "entity_chain question = Inl e \<Longrightarrow>
     generate_graph_visualization entity_chain g raw question =
       ([ExtractCall question],
        (None, cross_mark @ '' Error generating graph: '' @ str_exn e, False))"
  by (simp add: generate_graph_visualization_def)

text \<open>
  Claim C8, as amended. When the entity-extraction call raises, \<open>structured_retriever\<close>
  lets the error through uncaught, and so do \<open>retriever\<close> and \<open>chain\<close>: no store query and
  no chat call is made, and no answer is produced. The handlers of the application catch
  it: \<open>generate_graph_visualization\<close> returns no file and the status
  \<open>Error generating graph: {message}\<close>; \<open>process_unified_query\<close>, on a question that is
  not blank, adds the message \<open>Error: {message}\<close> to the chat history as the reply and
  returns it as the status. None of them queries the store for a default entity: the only
  call made is the extraction.
\<close>

theorem extraction_error:
  "entity_chain question = Inl e \<Longrightarrow>
     structured_retriever entity_chain g question = ([ExtractCall question], Inl e)
     \<and> chain entity_chain g chat question = ([ExtractCall question], Inl e)
     \<and> generate_graph_visualization entity_chain g raw question =
         ([ExtractCall question],
          (None, cross_mark @ '' Error generating graph: '' @ str_exn e, False))
     \<and> (strip question \<noteq> [] \<longrightarrow>
          process_unified_query entity_chain g raw chat question chat_history =
            ([ExtractCall question],
             (chat_history @ [(question, cross_mark @ '' Error: '' @ str_exn e)], [], None,
              cross_mark @ '' Error: '' @ str_exn e, False, [])))"
  by (simp add: retriever_passes_error chain_passes_error visualization_catches_error
      process_unified_query_def Let_def)

text \<open>An extractor that raises with the message \<open>model unavailable\<close>.\<close>

theorem extraction_error_witness:
  "failing ''model unavailable'' ''Who runs Acme?'' = Inl (Failure ''model unavailable'')
   \<and> strip ''Who runs Acme?'' \<noteq> []
   \<and> structured_retriever (failing ''model unavailable'') acme_graph ''Who runs Acme?'' =
       ([ExtractCall ''Who runs Acme?''], Inl (Failure ''model unavailable''))
   \<and> process_unified_query (failing ''model unavailable'') acme_graph rejecting (answering ''Bob'')
         ''Who runs Acme?'' [] =
       ([ExtractCall ''Who runs Acme?''],
        ([(''Who runs Acme?'', cross_mark @ '' Error: model unavailable'')], [], None,
         cross_mark @ '' Error: model unavailable'', False, []))"
proof -
  have h: "failing ''model unavailable'' ''Who runs Acme?'' = Inl (Failure ''model unavailable'')"
    by (simp add: failing_def)
  have s: "strip ''Who runs Acme?'' \<noteq> []" by (rule strip_acme)
  show ?thesis
    using h s
      extraction_error [of "failing ''model unavailable''" "''Who runs Acme?''"
        "Failure ''model unavailable''" acme_graph "answering ''Bob''" rejecting "[]"]
    by simp
qed

text \<open>
  Claim C8 as stated has the error reach the caller uncaught. The two handlers return
  normally, with the error as a message.
\<close>

theorem extraction_error_is_caught:
  "failing ''model unavailable'' ''Who runs Acme?'' = Inl (Failure ''model unavailable'')
   \<and> generate_graph_visualization (failing ''model unavailable'') acme_graph rejecting
         ''Who runs Acme?'' =
       ([ExtractCall ''Who runs Acme?''],
        (None, cross_mark @ '' Error generating graph: model unavailable'', False))
   \<and> process_unified_query (failing ''model unavailable'') acme_graph rejecting (answering ''Bob'')
         ''Who runs Acme?'' [] =
       ([ExtractCall ''Who runs Acme?''],
        ([(''Who runs Acme?'', cross_mark @ '' Error: model unavailable'')], [], None,
         cross_mark @ '' Error: model unavailable'', False, []))"
proof -
  have h: "failing ''model unavailable'' ''Who runs Acme?'' = Inl (Failure ''model unavailable'')"
    by (simp add: failing_def)
  show ?thesis
    using strip_acme
    by (simp add: h visualization_catches_error process_unified_query_def chain_passes_error
        Let_def str_exn.simps)
qed

section \<open>The entity of the visualization\<close>





section \<open>The node index\<close>

lemma cy_distinct_snoc:
  "cy_distinct (xs @ [k]) = (if k \<in> set xs then cy_distinct xs else cy_distinct xs @ [k])"
  by (simp add: cy_distinct_def)

lemma remember_snd:
  "map snd nm = [0..<length nm] \<Longrightarrow> map snd (remember nm k) = [0..<length (remember nm k)]"
  by (simp add: remember_def)

lemma remember_fst:
  "map fst nm = cy_distinct ks \<Longrightarrow> map fst (remember nm k) = cy_distinct (ks @ [k])"
proof -
  assume a: "map fst nm = cy_distinct ks"
  then have "set ks = fst ` set nm" by (metis set_cy_distinct set_map)
  then have "(map_of nm k = None) = (k \<notin> set ks)" by (simp add: map_of_eq_None_iff)
  then show ?thesis using a by (simp add: remember_def cy_distinct_snoc)
qed

lemma remember_prefix: "\<exists>ext. remember nm k = nm @ ext"
  by (simp add: remember_def)

lemma remember_has: "\<exists>i. map_of (remember nm k) k = Some i"
  by (cases "map_of nm k") (auto simp: remember_def map_add_def)

lemma map_of_prefix: "map_of nm k = Some i \<Longrightarrow> map_of (nm @ ext) k = Some i"
  by (simp add: map_add_Some_iff)

lemma remember_block:
  "(if map_of nm k = None then (nm @ [(k, length nm)], length nm + 1) else (nm, length nm)) =
     (remember nm k, length (remember nm k))"
  by (simp add: remember_def)

lemma index_rows_unfold:
  "index_rows ((s, r, t) # rest) nm rels (length nm) =
     (case lookup (remember (remember nm (node_key s)) (node_key t)) (node_key s) of
        Inl e \<Rightarrow> Inl e
      | Inr si \<Rightarrow>
          (case lookup (remember (remember nm (node_key s)) (node_key t)) (node_key t) of
             Inl e \<Rightarrow> Inl e
           | Inr ti \<Rightarrow>
               index_rows rest (remember (remember nm (node_key s)) (node_key t))
                 (rels @ [\<lparr>source = si, target = ti, caption = r\<rparr>])
                 (length (remember (remember nm (node_key s)) (node_key t)))))"
  by (simp only: index_rows.simps Let_def remember_block prod.case)

lemma index_rows_step:
  "idx = length nm \<Longrightarrow>
   map_of (remember (remember nm (node_key s)) (node_key t)) (node_key s) = Some si \<Longrightarrow>
   map_of (remember (remember nm (node_key s)) (node_key t)) (node_key t) = Some ti \<Longrightarrow>
   index_rows ((s, r, t) # rest) nm rels idx =
     index_rows rest (remember (remember nm (node_key s)) (node_key t))
       (rels @ [\<lparr>source = si, target = ti, caption = r\<rparr>])
       (length (remember (remember nm (node_key s)) (node_key t)))"
  by (simp only: index_rows_unfold lookup_def option.case sum.case)

lemma index_rows_invariant:
  "map snd nm = [0..<length nm] \<Longrightarrow> map fst nm = cy_distinct ks \<Longrightarrow> idx = length nm \<Longrightarrow>
   \<exists>nm' new ext.
      index_rows rows nm rels idx = Inr (nm', rels @ new)
      \<and> nm' = nm @ ext
      \<and> map snd nm' = [0..<length nm']
      \<and> map fst nm' = cy_distinct (ks @ row_keys rows)
      \<and> list_all2 (indexed_as nm') rows new"
proof (induction rows arbitrary: nm ks idx rels)
  case Nil
  then show ?case by (simp add: row_keys_def)
next
  case (Cons row rows)
  obtain s r t where row: "row = (s, r, t)" by (cases row) auto
  let ?nm1 = "remember nm (node_key s)"
  let ?nm2 = "remember ?nm1 (node_key t)"
  obtain e1 where e1: "?nm1 = nm @ e1" using remember_prefix by blast
  obtain e2 where e2: "?nm2 = ?nm1 @ e2" using remember_prefix by blast
  obtain si0 where "map_of ?nm1 (node_key s) = Some si0" using remember_has by blast
  then have si_raw: "map_of (?nm1 @ e2) (node_key s) = Some si0" by (rule map_of_prefix)
  have si: "map_of ?nm2 (node_key s) = Some si0" using si_raw e2 by simp
  obtain ti where ti: "map_of ?nm2 (node_key t) = Some ti" using remember_has by blast
  have snd2: "map snd ?nm2 = [0..<length ?nm2]"
    by (intro remember_snd Cons.prems(1))
  have fst2: "map fst ?nm2 = cy_distinct ((ks @ [node_key s]) @ [node_key t])"
    by (intro remember_fst Cons.prems(2))
  let ?e = "\<lparr>source = si0, target = ti, caption = r\<rparr>"
  have step: "index_rows (row # rows) nm rels idx = index_rows rows ?nm2 (rels @ [?e]) (length ?nm2)"
    unfolding row using Cons.prems(3) si ti by (rule index_rows_step)
  obtain nm' new ext where
    run: "index_rows rows ?nm2 (rels @ [?e]) (length ?nm2) = Inr (nm', (rels @ [?e]) @ new)"
    and ext: "nm' = ?nm2 @ ext"
    and snd': "map snd nm' = [0..<length nm']"
    and fst': "map fst nm' = cy_distinct (((ks @ [node_key s]) @ [node_key t]) @ row_keys rows)"
    and all2: "list_all2 (indexed_as nm') rows new"
    using Cons.IH [OF snd2 fst2 refl, of "rels @ [?e]"] by blast
  have "map_of (?nm2 @ ext) (node_key s) = Some si0" using si by (rule map_of_prefix)
  moreover have "map_of (?nm2 @ ext) (node_key t) = Some ti" using ti by (rule map_of_prefix)
  ultimately have head: "indexed_as nm' row ?e" using ext by (simp add: indexed_as_def row)
  have keys: "((ks @ [node_key s]) @ [node_key t]) @ row_keys rows = ks @ row_keys (row # rows)"
    by (simp add: row_keys_def row)
  have pre: "nm' = nm @ (e1 @ e2 @ ext)" using ext e1 e2 by simp
  have "index_rows (row # rows) nm rels idx = Inr (nm', rels @ (?e # new))"
    using step run by simp
  moreover have "list_all2 (indexed_as nm') (row # rows) (?e # new)" using head all2 by simp
  ultimately show ?case using pre snd' fst' keys by metis
qed

lemma index_rows_from_empty:
  "\<exists>node_map relationships.
      index_rows rows [] [] 0 = Inr (node_map, relationships)
      \<and> map snd node_map = [0..<length node_map]
      \<and> map fst node_map = cy_distinct (row_keys rows)
      \<and> list_all2 (indexed_as node_map) rows relationships"
  using index_rows_invariant [of "[]" "[]" 0 rows "[]"] by (simp add: cy_distinct_def)

lemma indexed_entries:
  assumes "list_all2 (indexed_as nm) rows rels" "e \<in> set rels"
  shows "source e \<in> snd ` set nm \<and> target e \<in> snd ` set nm"
proof -
  obtain row where "row \<in> set rows" "indexed_as nm row e"
    using assms by (metis in_set_conv_nth list_all2_conv_all_nth)
  then obtain s r t where "map_of nm (node_key s) = Some (source e)"
      "map_of nm (node_key t) = Some (target e)"
    by (auto simp: indexed_as_def)
  then have "(node_key s, source e) \<in> set nm" "(node_key t, target e) \<in> set nm"
    by (auto dest: map_of_SomeD)
  then show ?thesis by force
qed

lemma entries_used:
  assumes all2: "list_all2 (indexed_as nm) rows rels"
    and keys: "map fst nm = cy_distinct (row_keys rows)"
    and entry: "(k, i) \<in> set nm"
  shows "\<exists>e\<in>set rels. source e = i \<or> target e = i"
proof -
  have "distinct (map fst nm)" using keys by simp
  then have look: "map_of nm k = Some i" using entry by (rule map_of_is_SomeI)
  have "k \<in> set (map fst nm)" using entry by force
  then have "k \<in> set (row_keys rows)" using keys by simp
  then obtain s r t where row: "(s, r, t) \<in> set rows" and k: "k = node_key s \<or> k = node_key t"
    by (auto simp: row_keys_def)
  obtain e where "e \<in> set rels" "indexed_as nm (s, r, t) e"
    using all2 row by (metis in_set_conv_nth list_all2_conv_all_nth)
  then show ?thesis using k look by (auto simp: indexed_as_def)
qed

text \<open>
  Claim C6. Whatever rows the store returns, the loop of \<open>get_graph_data\<close> ends without a
  \<open>KeyError\<close>, and in its result: every source and target index of the relationship list
  is the index of an entry of the node map (each relationship carries the indices its row's
  two keys have in the map); the values of the map are \<open>0, 1, ..., n - 1\<close> in the order of
  its entries, and its keys are the keys of the rows in the order they are first seen;
  and every entry of the map is referenced by some relationship of the list. The result of
  \<open>get_graph_data\<close> is this loop run on the rows the store returns for its query (an
  error of the store is raised as it is); for an entity that is written into the query
  text unchanged, these are the rows of the query for that entity.
\<close>

theorem node_index_invariant:
  "(\<exists>node_map relationships.
        index_rows rows [] [] 0 = Inr (node_map, relationships)
        \<and> map snd node_map = [0..<length node_map]
        \<and> map fst node_map = cy_distinct (row_keys rows)
        \<and> list_all2 (indexed_as node_map) rows relationships
        \<and> (\<forall>e\<in>set relationships.
              source e \<in> snd ` set node_map \<and> target e \<in> snd ` set node_map)
        \<and> (\<forall>(k, i)\<in>set node_map. \<exists>e\<in>set relationships. source e = i \<or> target e = i))
   \<and> (\<forall>result. run_query g raw entity = Inr result \<longrightarrow>
        get_graph_data g raw entity = index_rows result [] [] 0)
   \<and> (\<forall>e. run_query g raw entity = Inl e \<longrightarrow> get_graph_data g raw entity = Inl e)
   \<and> (interpolates_verbatim entity \<longrightarrow>
        get_graph_data g raw entity = index_rows (index_query g entity) [] [] 0)"
proof -
  obtain node_map relationships where
    run: "index_rows rows [] [] 0 = Inr (node_map, relationships)"
    and snd: "map snd node_map = [0..<length node_map]"
    and fst: "map fst node_map = cy_distinct (row_keys rows)"
    and all2: "list_all2 (indexed_as node_map) rows relationships"
    using index_rows_from_empty by blast
  have a: "\<forall>e\<in>set relationships.
              source e \<in> snd ` set node_map \<and> target e \<in> snd ` set node_map"
    using indexed_entries [OF all2] by blast
  have b: "\<forall>(k, i)\<in>set node_map. \<exists>e\<in>set relationships. source e = i \<or> target e = i"
    using entries_used [OF all2 fst] by blast
  have c: "\<forall>result. run_query g raw entity = Inr result \<longrightarrow>
        get_graph_data g raw entity = index_rows result [] [] 0"
    by (simp add: get_graph_data_def)
  have d: "\<forall>e. run_query g raw entity = Inl e \<longrightarrow> get_graph_data g raw entity = Inl e"
    by (simp add: get_graph_data_def)
  have e: "interpolates_verbatim entity \<longrightarrow>
        get_graph_data g raw entity = index_rows (index_query g entity) [] [] 0"
    by (simp add: get_graph_data_def run_query_def)
  have "\<exists>node_map relationships.
        index_rows rows [] [] 0 = Inr (node_map, relationships)
        \<and> map snd node_map = [0..<length node_map]
        \<and> map fst node_map = cy_distinct (row_keys rows)
        \<and> list_all2 (indexed_as node_map) rows relationships
        \<and> (\<forall>e\<in>set relationships.
              source e \<in> snd ` set node_map \<and> target e \<in> snd ` set node_map)
        \<and> (\<forall>(k, i)\<in>set node_map. \<exists>e\<in>set relationships. source e = i \<or> target e = i)"
    using run snd fst all2 a b by blast
  then show ?thesis using c d e by blast
qed

text \<open>
  The entity \<open>b\<close> on the three-node graph: the rows are \<open>B -> C\<close> and \<open>A -> B\<close>, so \<open>B\<close>,
  \<open>C\<close>, \<open>A\<close> get the indices 0, 1, 2.
\<close>

theorem node_index_invariant_witness:
  "interpolates_verbatim ''b''
   \<and> run_query abc_graph rejecting ''b'' = Inr (index_query abc_graph ''b'')
   \<and> get_graph_data abc_graph rejecting ''b'' =
     Inr ([(''B'', 0), (''C'', 1), (''A'', 2)],
          [\<lparr>source = 0, target = 1, caption = ''LOCATED_IN''\<rparr>,
           \<lparr>source = 2, target = 0, caption = ''WORKS_FOR''\<rparr>])
   \<and> run_query abc_graph rejecting [CHR ''b'', CHR 0x27] = Inl (Failure ''Invalid input'')
   \<and> get_graph_data abc_graph rejecting [CHR ''b'', CHR 0x27] = Inl (Failure ''Invalid input'')
   \<and> index_rows (index_query abc_graph ''b'') [] [] 0 =
       Inr ([(''B'', 0), (''C'', 1), (''A'', 2)],
            [\<lparr>source = 0, target = 1, caption = ''LOCATED_IN''\<rparr>,
             \<lparr>source = 2, target = 0, caption = ''WORKS_FOR''\<rparr>])
   \<and> row_keys (index_query abc_graph ''b'') = [''B'', ''C'', ''A'', ''B'']
   \<and> cy_distinct (row_keys (index_query abc_graph ''b'')) = [''B'', ''C'', ''A'']"
proof -
  have v: "interpolates_verbatim ''b''" by (simp add: interpolates_verbatim_def)
  have r: "run_query abc_graph rejecting ''b'' = Inr (index_query abc_graph ''b'')"
    by (simp add: run_query_def v)
  have q: "run_query abc_graph rejecting [CHR ''b'', CHR 0x27] = Inl (Failure ''Invalid input'')"
    by (simp add: run_query_def interpolates_verbatim_def rejecting_def)
  have h: "index_rows (index_query abc_graph ''b'') [] [] 0 =
     Inr ([(''B'', 0), (''C'', 1), (''A'', 2)],
          [\<lparr>source = 0, target = 1, caption = ''LOCATED_IN''\<rparr>,
           \<lparr>source = 2, target = 0, caption = ''WORKS_FOR''\<rparr>])" by code_simp
  have k: "row_keys (index_query abc_graph ''b'') = [''B'', ''C'', ''A'', ''B'']" by code_simp
  have c: "cy_distinct [''B'', ''C'', ''A'', ''B''] = [''B'', ''C'', ''A'']" by code_simp
  show ?thesis
    using v r q h k c
      node_index_invariant [of "index_query abc_graph ''b''" abc_graph rejecting "''b''"]
      node_index_invariant [of "index_query abc_graph ''b''" abc_graph rejecting "[CHR ''b'', CHR 0x27]"]
    by simp
qed

section \<open>Cycles\<close>

lemma walk_append: "walk u (p @ q) = (walk u p \<and> walk (path_end u p) q)"
  by (induction p arbitrary: u) auto

lemma path_end_append: "path_end u (p @ q) = path_end (path_end u p) q"
  by (induction p arbitrary: u) auto

lemma trails_from_mem:
  "(p \<in> set (trails_from rs n)) =
     (\<exists>r\<in>set rs. startNode r = n \<and>
        (p = [r] \<or> (\<exists>q\<in>set (trails_from (removeAll r rs) (endNode r)). p = r # q)))"
  by (subst trails_from.simps) auto

lemma trails_into_mem:
  "(p \<in> set (trails_into rs n)) =
     (\<exists>r\<in>set rs. endNode r = n \<and>
        (p = [r] \<or> (\<exists>q\<in>set (trails_into (removeAll r rs) (startNode r)). p = q @ [r])))"
  by (subst trails_into.simps) auto

lemma trails_from_sound:
  "p \<in> set (trails_from rs n) \<Longrightarrow> p \<noteq> [] \<and> distinct p \<and> walk n p \<and> set p \<subseteq> set rs"
proof (induction rs n arbitrary: p rule: trails_from.induct)
  case (1 rs n)
  from "1.prems" obtain r where r: "r \<in> set rs" "startNode r = n"
    and p: "p = [r] \<or> (\<exists>q\<in>set (trails_from (removeAll r rs) (endNode r)). p = r # q)"
    unfolding trails_from_mem [of p rs n] by blast
  show ?case
  proof (cases "p = [r]")
    case True
    then show ?thesis using r by simp
  next
    case False
    with p obtain q where q: "q \<in> set (trails_from (removeAll r rs) (endNode r))" "p = r # q"
      by blast
    have "q \<noteq> [] \<and> distinct q \<and> walk (endNode r) q \<and> set q \<subseteq> set (removeAll r rs)"
      using "1.IH" [OF r(1) r(2) q(1)] .
    then show ?thesis using r q by auto
  qed
qed

lemma trails_into_sound:
  "p \<in> set (trails_into rs n) \<Longrightarrow> p \<noteq> [] \<and> distinct p \<and> set p \<subseteq> set rs"
proof (induction rs n arbitrary: p rule: trails_into.induct)
  case (1 rs n)
  from "1.prems" obtain r where r: "r \<in> set rs" "endNode r = n"
    and p: "p = [r] \<or> (\<exists>q\<in>set (trails_into (removeAll r rs) (startNode r)). p = q @ [r])"
    unfolding trails_into_mem [of p rs n] by blast
  show ?case
  proof (cases "p = [r]")
    case True
    then show ?thesis using r by simp
  next
    case False
    with p obtain q where q: "q \<in> set (trails_into (removeAll r rs) (startNode r))" "p = q @ [r]"
      by blast
    have "q \<noteq> [] \<and> distinct q \<and> set q \<subseteq> set (removeAll r rs)"
      using "1.IH" [OF r(1) r(2) q(1)] .
    then show ?thesis using r q by auto
  qed
qed

lemma trails_from_complete:
  "p \<noteq> [] \<Longrightarrow> distinct p \<Longrightarrow> walk n p \<Longrightarrow> set p \<subseteq> set rs \<Longrightarrow> p \<in> set (trails_from rs n)"
proof (induction p arbitrary: rs n)
  case Nil
  then show ?case by simp
next
  case (Cons r p)
  have r: "r \<in> set rs" "startNode r = n" using Cons.prems by auto
  show ?case
  proof (cases "p = []")
    case True
    then show ?thesis using r unfolding trails_from_mem [of "r # p" rs n] by blast
  next
    case False
    have "p \<in> set (trails_from (removeAll r rs) (endNode r))"
      using False Cons.prems by (intro Cons.IH) auto
    then show ?thesis using r unfolding trails_from_mem [of "r # p" rs n] by blast
  qed
qed

lemma trails_into_complete:
  "p \<noteq> [] \<Longrightarrow> distinct p \<Longrightarrow> walk m p \<Longrightarrow> path_end m p = n \<Longrightarrow> set p \<subseteq> set rs \<Longrightarrow>
     p \<in> set (trails_into rs n)"
proof (induction p arbitrary: rs n rule: rev_induct)
  case Nil
  then show ?case by simp
next
  case (snoc r p)
  have r: "r \<in> set rs" "endNode r = n" using snoc.prems by (auto simp: path_end_append)
  show ?case
  proof (cases "p = []")
    case True
    then show ?thesis using r unfolding trails_into_mem [of "p @ [r]" rs n] by blast
  next
    case False
    have "p \<in> set (trails_into (removeAll r rs) (startNode r))"
      using False snoc.prems by (intro snoc.IH) (auto simp: walk_append)
    then show ?thesis using r unfolding trails_into_mem [of "p @ [r]" rs n] by blast
  qed
qed

lemma shorten_out:
  "walk n (w @ [r]) \<Longrightarrow> \<exists>t. distinct (t @ [r]) \<and> walk n (t @ [r]) \<and> set t \<subseteq> set w"
proof (induction w rule: length_induct)
  case (1 w)
  show ?case
  proof (cases "distinct (w @ [r])")
    case True
    then show ?thesis using "1.prems" by blast
  next
    case False
    then consider (last) "r \<in> set w" | (inner) "\<not> distinct w" by auto
    then obtain w' where w': "length w' < length w" "walk n (w' @ [r])" "set w' \<subseteq> set w"
    proof cases
      case last
      then obtain a b where "w = a @ r # b" by (meson split_list)
      then have "length a < length w" "walk n (a @ [r])" "set a \<subseteq> set w"
        using "1.prems" by (auto simp: walk_append)
      then show ?thesis using that by blast
    next
      case inner
      then obtain xs ys zs y where "w = xs @ [y] @ ys @ [y] @ zs"
        using not_distinct_decomp by blast
      then have "length (xs @ [y] @ zs) < length w" "walk n ((xs @ [y] @ zs) @ [r])"
          "set (xs @ [y] @ zs) \<subseteq> set w"
        using "1.prems" by (auto simp: walk_append)
      then show ?thesis using that by blast
    qed
    then obtain t where "distinct (t @ [r])" "walk n (t @ [r])" "set t \<subseteq> set w'"
      using "1.IH" by blast
    then show ?thesis using w' by blast
  qed
qed

lemma shorten_in:
  "walk (endNode r) w \<Longrightarrow>
     \<exists>t. distinct (r # t) \<and> walk (endNode r) t
        \<and> path_end (endNode r) t = path_end (endNode r) w \<and> set t \<subseteq> set w"
proof (induction w rule: length_induct)
  case (1 w)
  show ?case
  proof (cases "distinct (r # w)")
    case True
    then show ?thesis using "1.prems" by blast
  next
    case False
    then consider (first) "r \<in> set w" | (inner) "\<not> distinct w" by auto
    then obtain w' where w': "length w' < length w" "walk (endNode r) w'"
        "path_end (endNode r) w' = path_end (endNode r) w" "set w' \<subseteq> set w"
    proof cases
      case first
      then obtain a b where "w = a @ r # b" by (meson split_list)
      then have "length b < length w" "walk (endNode r) b"
          "path_end (endNode r) b = path_end (endNode r) w" "set b \<subseteq> set w"
        using "1.prems" by (auto simp: walk_append path_end_append)
      then show ?thesis using that by blast
    next
      case inner
      then obtain xs ys zs y where "w = xs @ [y] @ ys @ [y] @ zs"
        using not_distinct_decomp by blast
      then have "length (xs @ [y] @ zs) < length w" "walk (endNode r) (xs @ [y] @ zs)"
          "path_end (endNode r) (xs @ [y] @ zs) = path_end (endNode r) w"
          "set (xs @ [y] @ zs) \<subseteq> set w"
        using "1.prems" by (auto simp: walk_append path_end_append)
      then show ?thesis using that by blast
    qed
    then obtain t where "distinct (r # t)" "walk (endNode r) t"
        "path_end (endNode r) t = path_end (endNode r) w'" "set t \<subseteq> set w'"
      using "1.IH" by blast
    then show ?thesis using w' by (metis subset_trans)
  qed
qed

lemma walk_reaches_out:
  assumes "walk n p" "set p \<subseteq> set rs" "r \<in> set p"
  shows "\<exists>q\<in>set (trails_from rs n). r \<in> set q"
proof -
  obtain a b where p: "p = a @ r # b" using assms(3) by (meson split_list)
  then have "walk n (a @ [r])" using assms(1) by (simp add: walk_append)
  then obtain t where t: "distinct (t @ [r])" "walk n (t @ [r])" "set t \<subseteq> set a"
    using shorten_out by blast
  have "set (t @ [r]) \<subseteq> set rs" using t(3) p assms(2) by auto
  then have "t @ [r] \<in> set (trails_from rs n)"
    using t by (intro trails_from_complete) auto
  then show ?thesis by force
qed

lemma walk_reaches_in:
  assumes "walk m p" "path_end m p = n" "set p \<subseteq> set rs" "r \<in> set p"
  shows "\<exists>q\<in>set (trails_into rs n). r \<in> set q"
proof -
  obtain a b where p: "p = a @ r # b" using assms(4) by (meson split_list)
  then have b: "walk (endNode r) b" "path_end (endNode r) b = n"
    using assms(1,2) by (auto simp: walk_append path_end_append)
  then obtain t where t: "distinct (r # t)" "walk (endNode r) t"
      "path_end (endNode r) t = n" "set t \<subseteq> set b"
    using shorten_in by metis
  have "set (r # t) \<subseteq> set rs" using t(4) p assms(3) by auto
  moreover have "walk (startNode r) (r # t)" using t(2) by simp
  moreover have "path_end (startNode r) (r # t) = n" using t(3) by simp
  ultimately have "r # t \<in> set (trails_into rs n)"
    using t(1) by (intro trails_into_complete [where m = "startNode r"]) auto
  then show ?thesis by force
qed

lemma count_in_distinct: "distinct xs \<Longrightarrow> x \<in> set xs \<Longrightarrow> count_list xs x = 1"
  by (induction xs) (auto simp: count_notin)

lemma distinct_index_query: "distinct (index_query g e)"
  by (simp add: index_query_def)

lemma distinct_text_query: "distinct (text_query g e)"
  by (simp add: text_query_def)

lemma rows_of_rel:
  assumes "r \<in> set (outgoing_rels g e) \<or> r \<in> set (incoming_rels g e)"
  shows "count_list (index_query g e) (index_row r) = 1
       \<and> count_list (text_query g e) (rel_output r) = 1"
proof -
  have "index_row r \<in> set (index_query g e)" using assms by (auto simp: index_query_def)
  moreover have "rel_output r \<in> set (text_query g e)" using assms by (auto simp: text_query_def)
  ultimately show ?thesis
    using distinct_index_query distinct_text_query by (simp add: count_in_distinct)
qed

text \<open>
  Claim C3. On every graph the traversal of both queries ends: \<open>trails_from\<close> and
  \<open>trails_into\<close> are total, each step taking the relationship it follows out of a finite
  list, and no path they list uses a relationship twice. Let a cycle \<open>c\<close> run from a node
  \<open>u\<close> back to \<open>u\<close>, and let a walk \<open>p\<close> lead from an anchor \<open>n\<close> to \<open>u\<close> (the outbound
  case) or from \<open>u\<close> to \<open>n\<close> (the inbound case). Then every relationship on the cycle
  appears exactly once among the rows returned: its triple of start node, type and end
  node once in the rows of the query of \<open>get_graph_data\<close>, its rendering once in the rows of
  the query of \<open>structured_retriever\<close>; and neither list of rows holds a duplicate.
\<close>

theorem cycle_edges_once:
  assumes "n \<in> set (anchors g entity)"
    and "set p \<subseteq> set (graph_rels g)" and "set c \<subseteq> set (graph_rels g)"
    and "walk u c" and "path_end u c = u"
    and "(walk n p \<and> path_end n p = u) \<or> (walk u p \<and> path_end u p = n)"
    and "r \<in> set c"
  shows "count_list (index_query g entity) (index_row r) = 1
       \<and> count_list (text_query g entity) (rel_output r) = 1
       \<and> distinct (index_query g entity) \<and> distinct (text_query g entity)
       \<and> (\<forall>q\<in>set (trails_from (graph_rels g) n) \<union> set (trails_into (graph_rels g) n).
             distinct q \<and> set q \<subseteq> set (graph_rels g))"
proof -
  have "r \<in> set (outgoing_rels g entity) \<or> r \<in> set (incoming_rels g entity)"
    using assms(6)
  proof
    assume "walk n p \<and> path_end n p = u"
    then have "walk n (p @ c)" using assms(4) by (simp add: walk_append)
    moreover have "set (p @ c) \<subseteq> set (graph_rels g)" using assms(2,3) by simp
    moreover have "r \<in> set (p @ c)" using assms(7) by simp
    ultimately have "\<exists>q\<in>set (trails_from (graph_rels g) n). r \<in> set q"
      by (rule walk_reaches_out)
    then show ?thesis using assms(1) unfolding set_outgoing_rels by blast
  next
    assume "walk u p \<and> path_end u p = n"
    then have "walk u (c @ p)" "path_end u (c @ p) = n"
      using assms(4,5) by (simp_all add: walk_append path_end_append)
    moreover have "set (c @ p) \<subseteq> set (graph_rels g)" using assms(2,3) by simp
    moreover have "r \<in> set (c @ p)" using assms(7) by simp
    ultimately have "\<exists>q\<in>set (trails_into (graph_rels g) n). r \<in> set q"
      by (rule walk_reaches_in)
    then show ?thesis using assms(1) unfolding set_incoming_rels by blast
  qed
  then have "count_list (index_query g entity) (index_row r) = 1
       \<and> count_list (text_query g entity) (rel_output r) = 1"
    by (rule rows_of_rel)
  then show ?thesis
    using distinct_index_query distinct_text_query trails_from_sound trails_into_sound
    by (metis Un_iff)
qed

text \<open>
  The cycle \<open>A -> B -> A\<close>: from the anchor \<open>A\<close>, which lies on it, and from the anchor
  \<open>C\<close>, which the cycle reaches through \<open>B -[LIKES]-> C\<close>.
\<close>

theorem cycle_edges_once_witness:
  "named ''A'' \<in> set (anchors cycle_graph ''a'')
   \<and> walk (named ''A'') [edge_of ''A'' ''KNOWS'' ''B'', edge_of ''B'' ''KNOWS'' ''A'']
   \<and> path_end (named ''A'') [edge_of ''A'' ''KNOWS'' ''B'', edge_of ''B'' ''KNOWS'' ''A''] = named ''A''
   \<and> count_list (index_query cycle_graph ''a'') (index_row (edge_of ''B'' ''KNOWS'' ''A'')) = 1
   \<and> count_list (text_query cycle_graph ''a'') (rel_output (edge_of ''B'' ''KNOWS'' ''A'')) = 1
   \<and> text_query cycle_graph ''a'' =
       [Some ''A -[KNOWS]-> B'', Some ''B -[KNOWS]-> A'', Some ''B -[LIKES]-> C'']
   \<and> named ''C'' \<in> set (anchors cycle_graph ''c'')
   \<and> walk (named ''B'') [edge_of ''B'' ''LIKES'' ''C'']
   \<and> path_end (named ''B'') [edge_of ''B'' ''LIKES'' ''C''] = named ''C''
   \<and> count_list (index_query cycle_graph ''c'') (index_row (edge_of ''A'' ''KNOWS'' ''B'')) = 1
   \<and> text_query cycle_graph ''c'' =
       [Some ''A -[KNOWS]-> B'', Some ''B -[KNOWS]-> A'', Some ''B -[LIKES]-> C'']"
proof -
  let ?ab = "edge_of ''A'' ''KNOWS'' ''B''"
  let ?ba = "edge_of ''B'' ''KNOWS'' ''A''"
  let ?bc = "edge_of ''B'' ''LIKES'' ''C''"
  have a: "named ''A'' \<in> set (anchors cycle_graph ''a'')" by code_simp
  have c: "named ''C'' \<in> set (anchors cycle_graph ''c'')" by code_simp
  have s0: "set [] \<subseteq> set (graph_rels cycle_graph)" by simp
  have s1: "set [?ab, ?ba] \<subseteq> set (graph_rels cycle_graph)" by code_simp
  have s2: "set [?ba, ?ab] \<subseteq> set (graph_rels cycle_graph)" by code_simp
  have s3: "set [?bc] \<subseteq> set (graph_rels cycle_graph)" by code_simp
  have w1: "walk (named ''A'') [?ab, ?ba]" by code_simp
  have e1: "path_end (named ''A'') [?ab, ?ba] = named ''A''" by code_simp
  have w2: "walk (named ''B'') [?ba, ?ab]" by code_simp
  have e2: "path_end (named ''B'') [?ba, ?ab] = named ''B''" by code_simp
  have w3: "walk (named ''B'') [?bc]" by code_simp
  have e3: "path_end (named ''B'') [?bc] = named ''C''" by code_simp
  have r1: "(walk (named ''A'') [] \<and> path_end (named ''A'') [] = named ''A'')
      \<or> (walk (named ''A'') [] \<and> path_end (named ''A'') [] = named ''A'')" by simp
  have r2: "(walk (named ''C'') [?bc] \<and> path_end (named ''C'') [?bc] = named ''B'')
      \<or> (walk (named ''B'') [?bc] \<and> path_end (named ''B'') [?bc] = named ''C'')"
    using w3 e3 by blast
  have m1: "?ba \<in> set [?ab, ?ba]" by simp
  have m2: "?ab \<in> set [?ba, ?ab]" by simp
  have t1: "text_query cycle_graph ''a'' =
       [Some ''A -[KNOWS]-> B'', Some ''B -[KNOWS]-> A'', Some ''B -[LIKES]-> C'']" by code_simp
  have t2: "text_query cycle_graph ''c'' =
       [Some ''A -[KNOWS]-> B'', Some ''B -[KNOWS]-> A'', Some ''B -[LIKES]-> C'']" by code_simp
  show ?thesis
    using a c w1 e1 w3 e3 t1 t2
      cycle_edges_once [OF a s0 s1 w1 e1 r1 m1]
      cycle_edges_once [OF c s3 s2 w2 e2 r2 m2]
    by simp
qed

end
